theory Spec2Isabelle
  imports Main
begin

section \<open>Data model\<close>

text \<open>
  A timezone-aware \<^verbatim>\<open>datetime\<close> is a point on the time line; only its order is used
  by the code, so it is an integer (microseconds since the epoch). Python strings are
  lists of characters; lengths count characters, as \<^verbatim>\<open>len\<close> does.
\<close>

type_synonym timestamp = int

text \<open>
  \<^verbatim>\<open>app/auth/models.py\<close>, class \<^verbatim>\<open>APIKey\<close>: one row of table \<^verbatim>\<open>api_keys\<close>. The
  primary key column \<^verbatim>\<open>id\<close> is called \<open>key_id\<close> here (\<open>id\<close> is the identity function
  of HOL).
\<close>

record APIKey =
  key_id :: string
  name :: string
  client_id :: string
  key_hash :: string
  key_prefix :: string
  is_active :: bool
  expires_at :: "timestamp option"
  created_at :: timestamp
  last_used_at :: "timestamp option"
  revoked_at :: "timestamp option"

text \<open>\<^verbatim>\<open>app/auth/schemas.py\<close>: the request and the response of key creation.\<close>

record APIKeyCreate =
  data_name :: string
  data_client_id :: string
  data_expires_at :: "timestamp option"

record APIKeyCreated =
  issued_id :: string
  issued_name :: string
  issued_client_id :: string
  issued_key_prefix :: string
  issued_key :: string
  issued_expires_at :: "timestamp option"
  issued_created_at :: timestamp

text \<open>
  The table is the list of its rows, oldest first. The exceptions that the service lets
  through are values: a violated constraint at \<^verbatim>\<open>flush\<close>, \<^verbatim>\<open>scalar_one_or_none\<close> on a
  result of two or more rows, and the \<^verbatim>\<open>ValueError\<close> of bcrypt.
\<close>

type_synonym api_keys = "APIKey list"

datatype error = IntegrityError | MultipleResultsFound | ValueError

fun scalar_one_or_none :: "'a list \<Rightarrow> error + 'a option" where
  "scalar_one_or_none [] = Inr None"
| "scalar_one_or_none [x] = Inr (Some x)"
| "scalar_one_or_none (x # y # zs) = Inl MultipleResultsFound"

section \<open>Secret codec: \<^verbatim>\<open>APIKeyService\<close> static helpers\<close>

definition KEY_PREFIX :: string where
  "KEY_PREFIX = ''sk_''"

definition MIN_PREFIX_LENGTH :: nat where
  "MIN_PREFIX_LENGTH = 4"

text \<open>
  \<^verbatim>\<open>generate_key\<close>: the random part comes from \<^verbatim>\<open>secrets.token_urlsafe\<close>; it is an
  argument of the model.
\<close>

definition generate_key :: "string \<Rightarrow> string" where
  "generate_key random_part = KEY_PREFIX @ random_part"

text \<open>
  \<^verbatim>\<open>hash_key\<close> and \<^verbatim>\<open>verify_key\<close> call the bcrypt library, which is not part of the
  repository: \<open>hashpw\<close> and \<open>checkpw\<close> are arguments, and so is the salt that
  \<^verbatim>\<open>bcrypt.gensalt\<close> draws. \<^verbatim>\<open>bcrypt.checkpw\<close> returns a boolean or raises
  \<^verbatim>\<open>ValueError\<close> (bcrypt 5 refuses a password of more than 72 bytes): \<open>checkpw\<close>
  returns \<open>None\<close> where the library raises, and \<^verbatim>\<open>verify_key\<close>, which has no
  \<^verbatim>\<open>try\<close>, lets the exception through.
\<close>

definition hash_key :: "(string \<Rightarrow> string \<Rightarrow> string) \<Rightarrow> string \<Rightarrow> string \<Rightarrow> string" where
  "hash_key hashpw salt key = hashpw key salt"

definition verify_key ::
  "(string \<Rightarrow> string \<Rightarrow> bool option) \<Rightarrow> string \<Rightarrow> string \<Rightarrow> error + bool" where
  "verify_key checkpw key hashed =
     (case checkpw key hashed of None \<Rightarrow> Inl ValueError | Some result \<Rightarrow> Inr result)"

text \<open>\<^verbatim>\<open>get_key_prefix\<close>: the slice \<^verbatim>\<open>key[:12]\<close>.\<close>

definition get_key_prefix :: "string \<Rightarrow> string" where
  "get_key_prefix key = take 12 key"

text \<open>\<^verbatim>\<open>APIKey.is_expired\<close>, at the time \<open>now\<close> that \<^verbatim>\<open>datetime.now(UTC)\<close> returns.\<close>

definition is_expired :: "timestamp \<Rightarrow> APIKey \<Rightarrow> bool" where
  "is_expired now r = (case expires_at r of None \<Rightarrow> False | Some e \<Rightarrow> now > e)"

section \<open>Key store\<close>

text \<open>
  \<^verbatim>\<open>db.add\<close> followed by \<^verbatim>\<open>db.flush\<close>: the INSERT. The schema has a primary key on
  \<^verbatim>\<open>id\<close>, unique constraints on \<^verbatim>\<open>key_hash\<close> and on \<^verbatim>\<open>key_prefix\<close>
  (\<^verbatim>\<open>models.py\<close>), and one on the pair \<^verbatim>\<open>(client_id, name)\<close>
  (\<^verbatim>\<open>alembic/versions/001_initial_schema.py\<close>).
\<close>

definition insert_api_key :: "api_keys \<Rightarrow> APIKey \<Rightarrow> error + api_keys" where
  "insert_api_key db r =
     (if key_id r \<in> set (map key_id db)
         \<or> key_hash r \<in> set (map key_hash db)
         \<or> key_prefix r \<in> set (map key_prefix db)
         \<or> (client_id r, name r) \<in> set (map (\<lambda>x. (client_id x, name x)) db)
      then Inl IntegrityError
      else Inr (db @ [r]))"

text \<open>
  \<^verbatim>\<open>create_key\<close>. Besides the session and the request it reads the random part of
  the key, the bcrypt salt, the \<^verbatim>\<open>uuid4\<close> of the column default and the time of the
  server default \<^verbatim>\<open>now()\<close>.
\<close>

definition create_key ::
  "(string \<Rightarrow> string \<Rightarrow> string) \<Rightarrow> api_keys \<Rightarrow> APIKeyCreate \<Rightarrow> string \<Rightarrow> string \<Rightarrow> string
     \<Rightarrow> timestamp \<Rightarrow> error + (api_keys \<times> APIKeyCreated)" where
  "create_key hashpw db data random_part salt uuid now =
     (let raw_key = generate_key random_part;
          hashed = hash_key hashpw salt raw_key;
          prefix = get_key_prefix raw_key;
          api_key = \<lparr>key_id = uuid, name = data_name data, client_id = data_client_id data,
                     key_hash = hashed, key_prefix = prefix, is_active = True,
                     expires_at = data_expires_at data, created_at = now,
                     last_used_at = None, revoked_at = None\<rparr>
      in case insert_api_key db api_key of
           Inl e \<Rightarrow> Inl e
         | Inr db' \<Rightarrow>
             Inr (db', \<lparr>issued_id = key_id api_key, issued_name = name api_key,
                        issued_client_id = client_id api_key,
                        issued_key_prefix = key_prefix api_key, issued_key = raw_key,
                        issued_expires_at = expires_at api_key,
                        issued_created_at = created_at api_key\<rparr>))"

text \<open>
  The SELECT of \<^verbatim>\<open>validate_key\<close>: the active rows whose prefix equals the given one,
  \<^verbatim>\<open>with_for_update(skip_locked=True)\<close>. The statement locks the rows it returns and
  skips every row on which another session holds a row lock at that moment; \<open>locked\<close>
  lists the ids of those rows.
\<close>

definition select_active_by_prefix :: "api_keys \<Rightarrow> string list \<Rightarrow> string \<Rightarrow> APIKey list" where
  "select_active_by_prefix db locked prefix =
     filter (\<lambda>r. is_active r = True \<and> key_prefix r = prefix \<and> key_id r \<notin> set locked) db"

text \<open>The UPDATE that \<^verbatim>\<open>flush\<close> emits for the touched row, addressed by primary key.\<close>

definition touch_last_used :: "api_keys \<Rightarrow> string \<Rightarrow> timestamp \<Rightarrow> api_keys" where
  "touch_last_used db kid now =
     map (\<lambda>r. if key_id r = kid then r\<lparr>last_used_at := Some now\<rparr> else r) db"

text \<open>
  \<^verbatim>\<open>validate_key\<close>. Besides the session and the presented key it depends on the rows
  that other sessions have locked (\<open>locked\<close>) and on the clock, which is read twice: by
  \<^verbatim>\<open>is_expired\<close> (\<open>now_check\<close>) and for \<^verbatim>\<open>last_used_at\<close> (\<open>now_touch\<close>). The
  result is the new table and the returned record, \<open>None\<close> where the source returns
  \<^verbatim>\<open>None\<close>.
\<close>

definition validate_key ::
  "(string \<Rightarrow> string \<Rightarrow> bool option) \<Rightarrow> api_keys \<Rightarrow> string list \<Rightarrow> string \<Rightarrow> timestamp
     \<Rightarrow> timestamp \<Rightarrow> error + (api_keys \<times> APIKey option)" where
  "validate_key checkpw db locked key now_check now_touch =
     (let prefix = get_key_prefix key
      in case scalar_one_or_none (select_active_by_prefix db locked prefix) of
           Inl e \<Rightarrow> Inl e
         | Inr None \<Rightarrow> Inr (db, None)
         | Inr (Some api_key) \<Rightarrow>
             (case verify_key checkpw key (key_hash api_key) of
                Inl e \<Rightarrow> Inl e
              | Inr verified \<Rightarrow>
                  if \<not> verified then Inr (db, None)
                  else if is_expired now_check api_key then Inr (db, None)
                  else Inr (touch_last_used db (key_id api_key) now_touch,
                            Some (api_key\<lparr>last_used_at := Some now_touch\<rparr>))))"

text \<open>\<^verbatim>\<open>get_key_by_id\<close>.\<close>

definition get_key_by_id :: "api_keys \<Rightarrow> string \<Rightarrow> error + APIKey option" where
  "get_key_by_id db kid = scalar_one_or_none (filter (\<lambda>r. key_id r = kid) db)"

text \<open>
  \<^verbatim>\<open>revoke_key\<close>: one UPDATE over the rows with the given id; \<^verbatim>\<open>rowcount\<close> is the
  number of rows it matched.
\<close>

definition revoke_key :: "api_keys \<Rightarrow> string \<Rightarrow> timestamp \<Rightarrow> api_keys \<times> bool" where
  "revoke_key db kid now =
     (let rowcount = length (filter (\<lambda>r. key_id r = kid) db);
          db' = map (\<lambda>r. if key_id r = kid
                          then r\<lparr>is_active := False, revoked_at := Some now\<rparr> else r) db
      in (db', rowcount > 0))"

text \<open>
  \<^verbatim>\<open>get_key_by_prefix\<close> filters with \<^verbatim>\<open>APIKey.key_prefix.startswith(prefix)\<close>, which
  SQLAlchemy renders as \<^verbatim>\<open>key_prefix LIKE :prefix || '%'\<close> with the argument not
  escaped. On PostgreSQL (the database of \<^verbatim>\<open>Settings.database_url\<close>) the pattern
  character \<^verbatim>\<open>%\<close> matches any sequence of characters, \<^verbatim>\<open>_\<close> any one character, and
  a backslash takes the next character literally. \<open>sql_like s pat\<close> is \<^verbatim>\<open>s LIKE pat\<close>.
  (A pattern that ends in a lone backslash is an error on PostgreSQL; a pattern built by
  \<open>sql_startswith\<close> ends in \<^verbatim>\<open>%\<close>, so that branch is not reached from it.)
\<close>

fun sql_like :: "string \<Rightarrow> string \<Rightarrow> bool" where
  "sql_like s [] = (s = [])"
| "sql_like [] (p # ps) = (p = CHR ''%'' \<and> sql_like [] ps)"
| "sql_like (c # s) (p # ps) =
     (if p = CHR ''%'' then sql_like (c # s) ps \<or> sql_like s (p # ps)
      else if p = CHR ''_'' then sql_like s ps
      else if p = CHR 0x5C then (case ps of [] \<Rightarrow> False | e # ps' \<Rightarrow> c = e \<and> sql_like s ps')
      else c = p \<and> sql_like s ps)"

definition sql_startswith :: "string \<Rightarrow> string \<Rightarrow> bool" where
  "sql_startswith s prefix = sql_like s (prefix @ ''%'')"

definition get_key_by_prefix :: "api_keys \<Rightarrow> string \<Rightarrow> error + APIKey option" where
  "get_key_by_prefix db prefix =
     (if length prefix < MIN_PREFIX_LENGTH then Inr None
      else scalar_one_or_none (filter (\<lambda>r. sql_startswith (key_prefix r) prefix) db))"

section \<open>Validation protocol: \<^verbatim>\<open>app/auth/dependencies.py\<close>\<close>

text \<open>The one field of \<^verbatim>\<open>Settings\<close> that \<^verbatim>\<open>get_api_key\<close> reads (default 32).\<close>

record Settings =
  api_key_min_length :: int

definition default_settings :: Settings where
  "default_settings = \<lparr>api_key_min_length = 32\<rparr>"

text \<open>
  What the caller of \<^verbatim>\<open>get_api_key\<close> can receive instead of a record: the
  \<^verbatim>\<open>HTTPException\<close> (status code, detail, headers), or an exception that
  \<^verbatim>\<open>validate_key\<close> raised and \<^verbatim>\<open>get_api_key\<close> does not catch (the application
  answers it with status 500, \<^verbatim>\<open>generic_exception_handler\<close> in \<^verbatim>\<open>app/main.py\<close>).
\<close>

datatype auth_failure =
  HTTPException nat string "(string \<times> string) list"
| Unhandled error

definition HTTP_401_UNAUTHORIZED :: nat where
  "HTTP_401_UNAUTHORIZED = 401"

definition INVALID_API_KEY_MESSAGE :: string where
  "INVALID_API_KEY_MESSAGE = ''Invalid API key''"

text \<open>
  \<^verbatim>\<open>get_api_key\<close>: the header value is \<^verbatim>\<open>None\<close> when the header is absent;
  \<^verbatim>\<open>not api_key\<close> holds for \<^verbatim>\<open>None\<close> and for the empty string.
\<close>

definition get_api_key ::
  "Settings \<Rightarrow> (string \<Rightarrow> string \<Rightarrow> bool option) \<Rightarrow> api_keys \<Rightarrow> string list
     \<Rightarrow> string option \<Rightarrow> timestamp \<Rightarrow> timestamp \<Rightarrow> auth_failure + (api_keys \<times> APIKey)" where
  "get_api_key settings checkpw db locked api_key now_check now_touch =
     (case api_key of
        None \<Rightarrow>
          Inl (HTTPException HTTP_401_UNAUTHORIZED INVALID_API_KEY_MESSAGE
                 [(''WWW-Authenticate'', ''ApiKey'')])
      | Some k \<Rightarrow>
          if k = [] then
            Inl (HTTPException HTTP_401_UNAUTHORIZED INVALID_API_KEY_MESSAGE
                   [(''WWW-Authenticate'', ''ApiKey'')])
          else if int (length k) < api_key_min_length settings then
            Inl (HTTPException HTTP_401_UNAUTHORIZED INVALID_API_KEY_MESSAGE
                   [(''WWW-Authenticate'', ''ApiKey'')])
          else
            (case validate_key checkpw db locked k now_check now_touch of
               Inl e \<Rightarrow> Inl (Unhandled e)
             | Inr (db', None) \<Rightarrow>
                 Inl (HTTPException HTTP_401_UNAUTHORIZED INVALID_API_KEY_MESSAGE
                        [(''WWW-Authenticate'', ''ApiKey'')])
             | Inr (db', Some key_record) \<Rightarrow> Inr (db', key_record)))"

section \<open>Sequences of core operations\<close>

text \<open>
  One core operation with everything it reads from outside (for a validation also the
  rows that other sessions hold locked). An operation that raises leaves the table as it
  was (the session is rolled back).
\<close>

datatype op =
  Create APIKeyCreate string string string timestamp
| Validate string "string list" timestamp timestamp
| Revoke string timestamp

fun exec ::
  "(string \<Rightarrow> string \<Rightarrow> string) \<Rightarrow> (string \<Rightarrow> string \<Rightarrow> bool option) \<Rightarrow> api_keys \<Rightarrow> op
     \<Rightarrow> api_keys" where
  "exec hashpw checkpw db (Create data random_part salt uuid now) =
     (case create_key hashpw db data random_part salt uuid now of
        Inl e \<Rightarrow> db | Inr (db', created) \<Rightarrow> db')"
| "exec hashpw checkpw db (Validate key locked now_check now_touch) =
     (case validate_key checkpw db locked key now_check now_touch of
        Inl e \<Rightarrow> db | Inr (db', found) \<Rightarrow> db')"
| "exec hashpw checkpw db (Revoke kid now) = fst (revoke_key db kid now)"

definition run ::
  "(string \<Rightarrow> string \<Rightarrow> string) \<Rightarrow> (string \<Rightarrow> string \<Rightarrow> bool option) \<Rightarrow> api_keys \<Rightarrow> op list
     \<Rightarrow> api_keys" where
  "run hashpw checkpw db ops = foldl (exec hashpw checkpw) db ops"

text \<open>The constraints of the schema that the lookups rely on, as a predicate on a table.\<close>

definition unique_keys :: "api_keys \<Rightarrow> bool" where
  "unique_keys db = (distinct (map key_id db) \<and> distinct (map key_prefix db))"

text \<open>The data-model invariant of the spec: revoked exactly when inactive.\<close>

definition revoked_iff_inactive :: "APIKey \<Rightarrow> bool" where
  "revoked_iff_inactive r = ((revoked_at r \<noteq> None) = (\<not> is_active r))"

text \<open>
  An auxiliary predicate for the proofs about revocation: some row carries the prefix
  \<open>p\<close>, and the SELECT of \<^verbatim>\<open>validate_key\<close> finds no active row for it even when no
  row is locked.
\<close>

definition prefix_inactive :: "string \<Rightarrow> api_keys \<Rightarrow> bool" where
  "prefix_inactive p db =
     (p \<in> set (map key_prefix db) \<and> select_active_by_prefix db [] p = [])"

section \<open>Item store: \<^verbatim>\<open>app/items\<close>\<close>

text \<open>
  \<^verbatim>\<open>app/items/models.py\<close>, class \<^verbatim>\<open>Item\<close> with the columns of \<^verbatim>\<open>TimestampMixin\<close>
  (\<^verbatim>\<open>app/db/base.py\<close>). The columns \<^verbatim>\<open>id\<close>, \<^verbatim>\<open>name\<close> and \<^verbatim>\<open>created_at\<close> carry the
  prefix \<open>item_\<close>: the names are taken by the key record.
\<close>

record Item =
  item_id :: string
  item_name :: string
  description :: "string option"
  item_created_at :: timestamp
  updated_at :: timestamp

text \<open>
  \<^verbatim>\<open>ItemUpdate\<close> (\<^verbatim>\<open>app/items/schemas.py\<close>): both fields are optional and nullable. A
  field is \<open>None\<close> when the request did not set it and \<open>Some v\<close> when it set it to
  \<open>v\<close>, where \<open>v = None\<close> is an explicit \<^verbatim>\<open>null\<close>.
\<close>

record ItemUpdate =
  set_name :: "string option option"
  set_description :: "string option option"

text \<open>\<^verbatim>\<open>data.model_dump(exclude_unset=True)\<close>: the dictionary of the fields that were set.\<close>

definition model_dump_exclude_unset :: "ItemUpdate \<Rightarrow> (string \<rightharpoonup> string option)" where
  "model_dump_exclude_unset data =
     (\<lambda>k. if k = ''name'' then set_name data
          else if k = ''description'' then set_description data
          else None)"

definition UPDATABLE_FIELDS :: "string set" where
  "UPDATABLE_FIELDS = {''name'', ''description''}"

definition get_by_id :: "Item list \<Rightarrow> string \<Rightarrow> error + Item option" where
  "get_by_id db iid = scalar_one_or_none (filter (\<lambda>r. item_id r = iid) db)"

text \<open>
  \<^verbatim>\<open>db.flush\<close> and \<^verbatim>\<open>db.refresh\<close> after the assignments of \<^verbatim>\<open>update\<close>: the pending
  value of \<^verbatim>\<open>name\<close> may be \<^verbatim>\<open>None\<close>, which the NOT NULL column refuses. The unit of
  work emits an UPDATE, addressed by primary key, only when a column value differs from
  the loaded one, and \<^verbatim>\<open>onupdate\<close> sets \<^verbatim>\<open>updated_at\<close> in that UPDATE.
\<close>

definition flush_item ::
  "Item list \<Rightarrow> Item \<Rightarrow> string option \<Rightarrow> string option \<Rightarrow> timestamp
     \<Rightarrow> error + (Item list \<times> Item option)" where
  "flush_item db item new_name new_description now =
     (case new_name of
        None \<Rightarrow> Inl IntegrityError
      | Some n \<Rightarrow>
          if n = item_name item \<and> new_description = description item then Inr (db, Some item)
          else
            (let item' = item\<lparr>item_name := n, description := new_description,
                               updated_at := now\<rparr>
             in Inr (map (\<lambda>r. if item_id r = item_id item then item' else r) db,
                     Some item')))"

text \<open>\<^verbatim>\<open>ItemService.update\<close>; \<open>now\<close> is the time that \<^verbatim>\<open>_utc_now\<close> returns at the flush.\<close>

definition update ::
  "Item list \<Rightarrow> string \<Rightarrow> ItemUpdate \<Rightarrow> timestamp \<Rightarrow> error + (Item list \<times> Item option)" where
  "update db iid data now =
     (case get_by_id db iid of
        Inl e \<Rightarrow> Inl e
      | Inr None \<Rightarrow> Inr (db, None)
      | Inr (Some item) \<Rightarrow>
          (let update_data = model_dump_exclude_unset data;
               new_name =
                 (if ''name'' \<in> dom update_data \<and> ''name'' \<in> UPDATABLE_FIELDS
                  then the (update_data ''name'') else Some (item_name item));
               new_description =
                 (if ''description'' \<in> dom update_data \<and> ''description'' \<in> UPDATABLE_FIELDS
                  then the (update_data ''description'') else description item)
           in flush_item db item new_name new_description now))"

section \<open>Concrete data for worked examples\<close>

text \<open>
  A stand-in for bcrypt, used only where a statement is evaluated on concrete data: the
  hash is the two-character salt followed by the key, and \<open>toy_checkpw\<close>, like
  \<^verbatim>\<open>checkpw\<close> of bcrypt 5, raises on a key of more than 72 characters.
\<close>

definition toy_hashpw :: "string \<Rightarrow> string \<Rightarrow> string" where
  "toy_hashpw key salt = salt @ key"

definition toy_checkpw :: "string \<Rightarrow> string \<Rightarrow> bool option" where
  "toy_checkpw key hashed = (if length key > 72 then None else Some (drop 2 hashed = key))"

definition secret_a :: string where
  "secret_a = ''sk_Aaaaaaaaa0123456789abcdefghijklmnopqrstuvwx''"

definition secret_b :: string where
  "secret_b = ''sk_Abbbbbbbb0123456789abcdefghijklmnopqrstuvwx''"

definition key_a :: APIKey where
  "key_a = \<lparr>key_id = ''id-a'', name = ''first'', client_id = ''client'',
            key_hash = toy_hashpw secret_a ''s1'', key_prefix = ''sk_Aaaaaaaaa'',
            is_active = True, expires_at = Some 10, created_at = 1, last_used_at = None,
            revoked_at = None\<rparr>"

definition key_b :: APIKey where
  "key_b = \<lparr>key_id = ''id-b'', name = ''second'', client_id = ''client'',
            key_hash = toy_hashpw secret_b ''s2'', key_prefix = ''sk_Abbbbbbbb'',
            is_active = True, expires_at = None, created_at = 2, last_used_at = None,
            revoked_at = None\<rparr>"

definition request_c :: APIKeyCreate where
  "request_c = \<lparr>data_name = ''third'', data_client_id = ''client'', data_expires_at = Some 100\<rparr>"

definition random_c :: string where
  "random_c = ''Ccccccccc0123456789abcdefghijklmnopqrstuvwx''"

definition key_c :: APIKey where
  "key_c = \<lparr>key_id = ''id-c'', name = ''third'', client_id = ''client'',
            key_hash = ''s3sk_Ccccccccc0123456789abcdefghijklmnopqrstuvwx'',
            key_prefix = ''sk_Ccccccccc'', is_active = True, expires_at = Some 100,
            created_at = 20, last_used_at = None, revoked_at = None\<rparr>"

definition issued_c :: APIKeyCreated where
  "issued_c = \<lparr>issued_id = ''id-c'', issued_name = ''third'', issued_client_id = ''client'',
      issued_key_prefix = ''sk_Ccccccccc'',
      issued_key = ''sk_Ccccccccc0123456789abcdefghijklmnopqrstuvwx'',
      issued_expires_at = Some 100, issued_created_at = 20\<rparr>"

definition long_key_b :: string where
  "long_key_b = ''sk_Abbbbbbbb'' @ replicate 61 (CHR ''x'')"

definition long_key_z :: string where
  "long_key_z = ''sk_Zzzzzzzzz'' @ replicate 61 (CHR ''x'')"

definition widget :: Item where
  "widget = \<lparr>item_id = ''item-1'', item_name = ''Widget'', description = Some ''A thing'',
              item_created_at = 1, updated_at = 1\<rparr>"

definition rename_widget :: ItemUpdate where
  "rename_widget = \<lparr>set_name = Some (Some ''Widget2''), set_description = None\<rparr>"

lemmas example_defs =
  key_a_def key_b_def secret_a_def secret_b_def toy_hashpw_def toy_checkpw_def

section \<open>Properties\<close>

text \<open>
  C10: a candidate of fewer than 12 characters is its own prefix (the slice returns the
  whole string), so \<^verbatim>\<open>validate_key\<close> on it queries the store with the full candidate:
  its result is the one computed from the rows selected by the candidate itself.
\<close>

theorem short_key_prefix_is_whole_key:
  assumes "length s < 12"
  shows "get_key_prefix s = s
    \<and> validate_key checkpw db locked s t1 t2 =
        (case scalar_one_or_none (select_active_by_prefix db locked s) of
           Inl e \<Rightarrow> Inl e
         | Inr None \<Rightarrow> Inr (db, None)
         | Inr (Some api_key) \<Rightarrow>
             (case verify_key checkpw s (key_hash api_key) of
                Inl e \<Rightarrow> Inl e
              | Inr verified \<Rightarrow>
                  if \<not> verified then Inr (db, None)
                  else if is_expired t1 api_key then Inr (db, None)
                  else Inr (touch_last_used db (key_id api_key) t2,
                            Some (api_key\<lparr>last_used_at := Some t2\<rparr>))))"
  using assms by (simp add: get_key_prefix_def validate_key_def)

theorem short_key_prefix_is_whole_key_witness:
  "length ''sk_short'' < 12 \<and> get_key_prefix ''sk_short'' = ''sk_short''"
  using short_key_prefix_is_whole_key [of "''sk_short''"] by simp

subsection \<open>The SELECT of \<^verbatim>\<open>validate_key\<close> under the unique constraint\<close>

lemma select_active_by_prefix_absent:
  "p \<notin> set (map key_prefix db) \<Longrightarrow> select_active_by_prefix db locked p = []"
  by (induction db) (auto simp: select_active_by_prefix_def)

lemma select_active_by_prefix_row:
  "distinct (map key_prefix db) \<Longrightarrow> r \<in> set db
     \<Longrightarrow> select_active_by_prefix db locked (key_prefix r) =
           (if is_active r \<and> key_id r \<notin> set locked then [r] else [])"
proof (induction db)
  case Nil
  then show ?case by simp
next
  case (Cons x db)
  show ?case
  proof (cases "x = r")
    case True
    with Cons.prems have "key_prefix r \<notin> set (map key_prefix db)" by simp
    then have "select_active_by_prefix db locked (key_prefix r) = []"
      by (rule select_active_by_prefix_absent)
    with True show ?thesis by (simp add: select_active_by_prefix_def)
  next
    case False
    with Cons.prems have r: "r \<in> set db" by simp
    with Cons.prems have "key_prefix x \<noteq> key_prefix r" by force
    moreover from Cons r have "select_active_by_prefix db locked (key_prefix r) =
      (if is_active r \<and> key_id r \<notin> set locked then [r] else [])" by simp
    ultimately show ?thesis by (simp add: select_active_by_prefix_def)
  qed
qed

lemma select_active_by_prefix_short:
  "distinct (map key_prefix db) \<Longrightarrow> length (select_active_by_prefix db locked p) \<le> 1"
proof (induction db)
  case Nil
  then show ?case by (simp add: select_active_by_prefix_def)
next
  case (Cons x db)
  show ?case
  proof (cases "key_prefix x = p")
    case True
    with Cons.prems have "p \<notin> set (map key_prefix db)" by auto
    then have "select_active_by_prefix db locked p = []"
      by (rule select_active_by_prefix_absent)
    then show ?thesis by (simp add: select_active_by_prefix_def)
  next
    case False
    with Cons show ?thesis by (simp add: select_active_by_prefix_def)
  qed
qed

lemma select_active_by_prefix_locked:
  "select_active_by_prefix db [] p = [] \<Longrightarrow> select_active_by_prefix db locked p = []"
  by (induction db) (auto simp: select_active_by_prefix_def split: if_splits)

lemma scalar_one_or_none_short:
  "length xs \<le> 1 \<Longrightarrow> scalar_one_or_none xs = Inr (case xs of [] \<Rightarrow> None | x # _ \<Rightarrow> Some x)"
  by (cases xs rule: scalar_one_or_none.cases) auto

text \<open>With unique prefixes the only exception of \<^verbatim>\<open>validate_key\<close> is the one of bcrypt.\<close>

lemma validate_key_error:
  "distinct (map key_prefix db) \<Longrightarrow> validate_key checkpw db locked key t1 t2 = Inl e
     \<Longrightarrow> e = ValueError"
  using select_active_by_prefix_short [of db locked "get_key_prefix key"]
  by (auto simp: validate_key_def Let_def scalar_one_or_none_short verify_key_def
           split: list.splits option.splits sum.splits if_splits)

lemma verify_key_no_error:
  "\<forall>k h. checkpw k h \<noteq> None \<Longrightarrow> verify_key checkpw key hashed \<noteq> Inl e"
proof -
  assume "\<forall>k h. checkpw k h \<noteq> None"
  then have "checkpw key hashed \<noteq> None" by blast
  then obtain b where "checkpw key hashed = Some b" by blast
  then show ?thesis by (simp add: verify_key_def)
qed

lemma validate_key_no_error:
  assumes "distinct (map key_prefix db)" and "\<forall>k h. checkpw k h \<noteq> None"
  shows "validate_key checkpw db locked key t1 t2 \<noteq> Inl e"
  using select_active_by_prefix_short [OF assms(1), of locked "get_key_prefix key"]
    verify_key_no_error [OF assms(2)]
  by (auto simp: validate_key_def Let_def scalar_one_or_none_short
           split: list.splits sum.splits if_splits)

subsection \<open>Expiry and row locks\<close>

text \<open>
  C4 as stated fails: \<open>key_b\<close> is active, never expires, and \<open>secret_b\<close> is its
  correct plaintext, yet \<^verbatim>\<open>validate_key\<close> rejects while another session holds the lock
  on the row, because the SELECT skips it.
\<close>

theorem unexpired_key_rejected_when_locked_counterexample:
  "key_b \<in> set [key_a, key_b] \<and> is_active key_b \<and> expires_at key_b = None
   \<and> key_prefix key_b = get_key_prefix secret_b
   \<and> verify_key toy_checkpw secret_b (key_hash key_b) = Inr True
   \<and> validate_key toy_checkpw [key_a, key_b] [''id-b''] secret_b 5 6
       = Inr ([key_a, key_b], None)"
  by (simp add: validate_key_def select_active_by_prefix_def get_key_prefix_def
      verify_key_def example_defs)

text \<open>
  C4, amended: let \<open>r\<close> be an active record of a table with unique prefixes, and \<open>key\<close>
  its correct plaintext (its prefix is the record's, and it verifies against the record's
  hash). Then \<^verbatim>\<open>validate_key\<close> at evaluation time \<open>now\<close> rejects (returns \<^verbatim>\<open>None\<close>) if
  and only if another session holds the lock on the row, or \<open>expires_at\<close> is present and
  strictly before \<open>now\<close>. With the row not locked and \<open>expires_at\<close> absent, or equal to
  \<open>now\<close>, the key is not expired: the call returns the record, its \<open>last_used_at\<close> set.
\<close>

theorem validate_key_rejects_iff_expired_or_locked:
  assumes "distinct (map key_prefix db)" and "r \<in> set db" and "is_active r"
    and "key_prefix r = get_key_prefix key"
    and "verify_key checkpw key (key_hash r) = Inr True"
  shows "((\<exists>db'. validate_key checkpw db locked key now t = Inr (db', None))
           \<longleftrightarrow> (key_id r \<in> set locked \<or> (\<exists>e. expires_at r = Some e \<and> e < now)))
    \<and> (key_id r \<notin> set locked \<and> (expires_at r = None \<or> expires_at r = Some now) \<longrightarrow>
         validate_key checkpw db locked key now t =
           Inr (touch_last_used db (key_id r) t, Some (r\<lparr>last_used_at := Some t\<rparr>)))"
proof -
  from assms(1-4) have "select_active_by_prefix db locked (get_key_prefix key) =
      (if key_id r \<notin> set locked then [r] else [])"
    using select_active_by_prefix_row [of db r locked] by simp
  with assms(5) show ?thesis
    by (auto simp: validate_key_def is_expired_def split: option.splits)
qed

theorem validate_key_rejects_iff_expired_or_locked_witness:
  "validate_key toy_checkpw [key_a, key_b] [''id-b''] secret_a 10 11 =
     Inr ([key_a\<lparr>last_used_at := Some 11\<rparr>, key_b], Some (key_a\<lparr>last_used_at := Some 11\<rparr>))
   \<and> (\<exists>db'. validate_key toy_checkpw [key_a, key_b] [''id-b''] secret_a 11 12 = Inr (db', None))
   \<and> (\<exists>db'. validate_key toy_checkpw [key_a, key_b] [''id-a''] secret_a 10 11 = Inr (db', None))"
proof -
  have h: "distinct (map key_prefix [key_a, key_b])" "key_a \<in> set [key_a, key_b]"
    "is_active key_a" "key_prefix key_a = get_key_prefix secret_a"
    "verify_key toy_checkpw secret_a (key_hash key_a) = Inr True"
    by (simp_all add: example_defs get_key_prefix_def verify_key_def)
  have e: "expires_at key_a = Some 10" "key_id key_a = ''id-a''" by (simp_all add: key_a_def)
  have t: "touch_last_used [key_a, key_b] (key_id key_a) 11
             = [key_a\<lparr>last_used_at := Some 11\<rparr>, key_b]"
    by (simp add: touch_last_used_def key_a_def key_b_def)
  from validate_key_rejects_iff_expired_or_locked [OF h, of "[''id-b'']" 10 11]
    validate_key_rejects_iff_expired_or_locked [OF h, of "[''id-b'']" 11 12]
    validate_key_rejects_iff_expired_or_locked [OF h, of "[''id-a'']" 10 11] e t
  show ?thesis by simp
qed

subsection \<open>The failure signal\<close>

text \<open>
  Each way of failing that \<^verbatim>\<open>get_api_key\<close> turns into its exception, one by one:
  header absent, header empty, key too short, no active unlocked row for the prefix (an
  unknown or a revoked key), hash mismatch, expired.
\<close>

lemma get_api_key_rejections:
  shows "get_api_key settings checkpw db locked None t1 t2 =
           Inl (HTTPException 401 ''Invalid API key'' [(''WWW-Authenticate'', ''ApiKey'')])"
    and "get_api_key settings checkpw db locked (Some []) t1 t2 =
           Inl (HTTPException 401 ''Invalid API key'' [(''WWW-Authenticate'', ''ApiKey'')])"
    and "int (length k) < api_key_min_length settings
           \<Longrightarrow> get_api_key settings checkpw db locked (Some k) t1 t2 =
                 Inl (HTTPException 401 ''Invalid API key'' [(''WWW-Authenticate'', ''ApiKey'')])"
    and "select_active_by_prefix db locked (get_key_prefix k) = []
           \<Longrightarrow> get_api_key settings checkpw db locked (Some k) t1 t2 =
                 Inl (HTTPException 401 ''Invalid API key'' [(''WWW-Authenticate'', ''ApiKey'')])"
    and "select_active_by_prefix db locked (get_key_prefix k) = [r]
           \<Longrightarrow> verify_key checkpw k (key_hash r) = Inr False
           \<Longrightarrow> get_api_key settings checkpw db locked (Some k) t1 t2 =
                 Inl (HTTPException 401 ''Invalid API key'' [(''WWW-Authenticate'', ''ApiKey'')])"
    and "select_active_by_prefix db locked (get_key_prefix k) = [r]
           \<Longrightarrow> verify_key checkpw k (key_hash r) = Inr True
           \<Longrightarrow> is_expired t1 r
           \<Longrightarrow> get_api_key settings checkpw db locked (Some k) t1 t2 =
                 Inl (HTTPException 401 ''Invalid API key'' [(''WWW-Authenticate'', ''ApiKey'')])"
  by (simp_all add: get_api_key_def validate_key_def HTTP_401_UNAUTHORIZED_def
      INVALID_API_KEY_MESSAGE_def)

text \<open>
  As long as \<^verbatim>\<open>checkpw\<close> returns, every failure is that one value. When it raises, the
  exception leaves \<^verbatim>\<open>get_api_key\<close> as it is.
\<close>

lemma get_api_key_failure:
  assumes "distinct (map key_prefix db)" and "\<forall>k h. checkpw k h \<noteq> None"
    and "get_api_key settings checkpw db locked api_key t1 t2 = Inl e"
  shows "e = HTTPException 401 ''Invalid API key'' [(''WWW-Authenticate'', ''ApiKey'')]"
  using assms(3) validate_key_no_error [OF assms(1,2), of locked _ t1 t2]
  by (auto simp: get_api_key_def HTTP_401_UNAUTHORIZED_def INVALID_API_KEY_MESSAGE_def
           split: option.splits if_splits sum.splits)

lemma get_api_key_checkpw_raises:
  assumes "select_active_by_prefix db locked (get_key_prefix k) = [r]"
    and "checkpw k (key_hash r) = None" and "k \<noteq> []"
    and "\<not> int (length k) < api_key_min_length settings"
  shows "get_api_key settings checkpw db locked (Some k) t1 t2 = Inl (Unhandled ValueError)"
  using assms by (simp add: get_api_key_def validate_key_def verify_key_def)

text \<open>
  C3, at the input where the code departs from it: two presented keys of 73 characters,
  both longer than the configured minimum. The first carries the prefix of the active
  key \<open>key_b\<close>: the row is found, \<^verbatim>\<open>bcrypt.checkpw\<close> raises \<^verbatim>\<open>ValueError\<close> on the
  over-long key, nothing catches it, and the caller receives that exception (status
  500). The second carries a prefix that no row has: the caller receives the exception
  with status 401. The two failures differ, and the difference tells which prefixes
  belong to active keys.
\<close>

theorem long_key_failures_differ:
  "length long_key_b = 73 \<and> length long_key_z = 73
   \<and> get_key_prefix long_key_b = key_prefix key_b \<and> is_active key_b
   \<and> unique_keys [key_a, key_b]
   \<and> get_api_key default_settings toy_checkpw [key_a, key_b] [] (Some long_key_b) 5 6
       = Inl (Unhandled ValueError)
   \<and> get_api_key default_settings toy_checkpw [key_a, key_b] [] (Some long_key_z) 5 6
       = Inl (HTTPException 401 ''Invalid API key'' [(''WWW-Authenticate'', ''ApiKey'')])"
  by (simp add: get_api_key_def validate_key_def select_active_by_prefix_def
      get_key_prefix_def verify_key_def default_settings_def unique_keys_def
      HTTP_401_UNAUTHORIZED_def INVALID_API_KEY_MESSAGE_def long_key_b_def long_key_z_def
      example_defs)

subsection \<open>Revocation reports whether the id exists\<close>

lemma revoke_key_found: "snd (revoke_key db kid now) = (kid \<in> set (map key_id db))"
  by (induction db) (auto simp: revoke_key_def Let_def)

lemma key_id_revoke_key: "map key_id (fst (revoke_key db kid now)) = map key_id db"
  by (induction db) (auto simp: revoke_key_def Let_def)

text \<open>
  C6: \<^verbatim>\<open>revoke_key\<close> returns true exactly when the table has a row with the given id,
  whatever that row's \<open>is_active\<close>; hence false only for a missing id. A second call on
  the same id returns what the first returned: true both times for an existing id.
\<close>

theorem revoke_key_true_iff_id_exists:
  "snd (revoke_key db kid now) = (kid \<in> set (map key_id db))
   \<and> snd (revoke_key (fst (revoke_key db kid now)) kid now') = snd (revoke_key db kid now)"
  by (simp add: revoke_key_found key_id_revoke_key)

subsection \<open>Administrative lookup by prefix\<close>

lemma get_key_by_prefix_too_short:
  "length p < 4 \<Longrightarrow> get_key_by_prefix db p = Inr None"
  by (simp add: get_key_by_prefix_def MIN_PREFIX_LENGTH_def)

text \<open>
  C5, at the input where the code departs from it: two stored keys (distinct ids and
  distinct 12-character prefixes, as the schema demands) whose prefixes both begin with
  \<^verbatim>\<open>sk_A\<close>, and the 4-character search prefix \<^verbatim>\<open>sk_A\<close>. The lookup neither returns a
  record nor \<^verbatim>\<open>None\<close>: \<^verbatim>\<open>scalar_one_or_none\<close> raises \<^verbatim>\<open>MultipleResultsFound\<close>.
\<close>

theorem get_key_by_prefix_ambiguous_raises:
  "unique_keys [key_a, key_b] \<and> length ''sk_A'' = 4
   \<and> get_key_by_prefix [key_a, key_b] ''sk_A'' = Inl MultipleResultsFound"
  by (simp add: unique_keys_def get_key_by_prefix_def MIN_PREFIX_LENGTH_def
      sql_startswith_def example_defs)

subsection \<open>Issue, then validate\<close>

lemma create_key_result:
  assumes "create_key hashpw db data random_part salt uuid now = Inr (db', created)"
  shows "\<exists>r. db' = db @ [r] \<and> key_id r = uuid \<and> issued_id created = uuid
    \<and> issued_key created = generate_key random_part
    \<and> key_prefix r = get_key_prefix (generate_key random_part)
    \<and> key_hash r = hashpw (generate_key random_part) salt
    \<and> is_active r \<and> revoked_at r = None \<and> expires_at r = data_expires_at data
    \<and> key_prefix r \<notin> set (map key_prefix db) \<and> key_id r \<notin> set (map key_id db)"
  using assms
  by (auto simp: create_key_def insert_api_key_def hash_key_def Let_def split: if_splits)

lemma select_active_by_prefix_append:
  "select_active_by_prefix (db @ db2) locked p =
     select_active_by_prefix db locked p @ select_active_by_prefix db2 locked p"
  by (simp add: select_active_by_prefix_def)

text \<open>
  C1: when \<^verbatim>\<open>create_key\<close> succeeds, and bcrypt verifies the issued plaintext against
  the hash it made of it, and \<open>expires_at\<close> of the request is absent or strictly after
  the time \<open>t\<close> of the check, then \<^verbatim>\<open>validate_key\<close> on the table just written, with the
  returned plaintext, returns a record of the table whose id is the id returned at
  issuance. Immediately after issuance no other session holds a lock on the new row;
  locks on other rows do not matter.
\<close>

theorem create_then_validate_same_id:
  assumes "create_key hashpw db data random_part salt uuid now = Inr (db', created)"
    and "checkpw (issued_key created) (hashpw (issued_key created) salt) = Some True"
    and "case data_expires_at data of None \<Rightarrow> True | Some e \<Rightarrow> t < e"
    and "issued_id created \<notin> set locked"
  shows "\<exists>db'' r. validate_key checkpw db' locked (issued_key created) t t' = Inr (db'', Some r)
    \<and> key_id r = issued_id created \<and> r \<in> set db''"
proof -
  from create_key_result [OF assms(1)] obtain r where r:
    "db' = db @ [r]" "key_id r = uuid" "issued_id created = uuid"
    "issued_key created = generate_key random_part"
    "key_prefix r = get_key_prefix (generate_key random_part)"
    "key_hash r = hashpw (generate_key random_part) salt"
    "is_active r" "expires_at r = data_expires_at data"
    "key_prefix r \<notin> set (map key_prefix db)"
    by blast
  from r(9) have "select_active_by_prefix db locked (key_prefix r) = []"
    by (rule select_active_by_prefix_absent)
  with r(1,2,3,7) assms(4) have sel: "select_active_by_prefix db' locked (key_prefix r) = [r]"
    by (simp add: select_active_by_prefix_append) (simp add: select_active_by_prefix_def)
  from assms(3) r(8) have ne: "\<not> is_expired t r"
    by (auto simp: is_expired_def split: option.splits)
  from assms(2) r(4,6) have ok: "verify_key checkpw (issued_key created) (key_hash r) = Inr True"
    by (simp add: verify_key_def)
  from sel ne ok r(4,5) have
    "validate_key checkpw db' locked (issued_key created) t t' =
       Inr (touch_last_used db' (key_id r) t', Some (r\<lparr>last_used_at := Some t'\<rparr>))"
    by (simp add: validate_key_def)
  moreover from r(1) have "r\<lparr>last_used_at := Some t'\<rparr> \<in> set (touch_last_used db' (key_id r) t')"
    by (simp add: touch_last_used_def)
  ultimately show ?thesis using r(2,3) by simp
qed

lemma create_c:
  "create_key toy_hashpw [key_a, key_b] request_c random_c ''s3'' ''id-c'' 20
     = Inr ([key_a, key_b, key_c], issued_c)"
  by (simp add: create_key_def Let_def insert_api_key_def generate_key_def KEY_PREFIX_def
      hash_key_def get_key_prefix_def request_c_def random_c_def key_c_def issued_c_def
      example_defs)

theorem create_then_validate_same_id_witness:
  "create_key toy_hashpw [key_a, key_b] request_c random_c ''s3'' ''id-c'' 20
     = Inr ([key_a, key_b, key_c], issued_c)
   \<and> (\<exists>db'' r. validate_key toy_checkpw [key_a, key_b, key_c] [''id-a''] (issued_key issued_c) 21 22
                  = Inr (db'', Some r)
        \<and> key_id r = issued_id issued_c \<and> r \<in> set db'')"
proof -
  have b: "toy_checkpw (issued_key issued_c) (toy_hashpw (issued_key issued_c) ''s3'') = Some True"
    by (simp add: toy_checkpw_def toy_hashpw_def issued_c_def)
  have e: "case data_expires_at request_c of None \<Rightarrow> True | Some e \<Rightarrow> 21 < e"
    by (simp add: request_c_def)
  have l: "issued_id issued_c \<notin> set [''id-a'']" by (simp add: issued_c_def)
  from create_then_validate_same_id [where hashpw = toy_hashpw and checkpw = toy_checkpw
      and t' = 22, OF create_c b e l] create_c
  show ?thesis by simp
qed

subsection \<open>Revoke, then validate\<close>

lemma key_prefix_touch_last_used [simp]:
  "map key_prefix (touch_last_used db kid t) = map key_prefix db"
  by (induction db) (auto simp: touch_last_used_def)

lemma select_active_touch_last_used:
  "select_active_by_prefix db locked p = []
     \<Longrightarrow> select_active_by_prefix (touch_last_used db kid t) locked p = []"
  by (induction db) (auto simp: touch_last_used_def select_active_by_prefix_def split: if_splits)

lemma key_prefix_revoke_key [simp]:
  "map key_prefix (fst (revoke_key db kid now)) = map key_prefix db"
  by (induction db) (auto simp: revoke_key_def Let_def)

lemma select_active_revoke_key:
  "select_active_by_prefix db locked p = []
     \<Longrightarrow> select_active_by_prefix (fst (revoke_key db kid now)) locked p = []"
  by (induction db) (auto simp: revoke_key_def Let_def select_active_by_prefix_def split: if_splits)

lemma validate_key_db:
  "validate_key checkpw db locked key t1 t2 = Inr (db', found)
     \<Longrightarrow> db' = db \<or> (\<exists>kid. db' = touch_last_used db kid t2)"
  by (auto simp: validate_key_def Let_def split: sum.splits option.splits if_splits)

lemma prefix_inactive_exec:
  assumes "prefix_inactive p db"
  shows "prefix_inactive p (exec hashpw checkpw db op)"
proof (cases op)
  case (Create data random_part salt uuid now)
  show ?thesis
  proof (cases "create_key hashpw db data random_part salt uuid now")
    case (Inl e)
    with Create assms show ?thesis by simp
  next
    case (Inr res)
    obtain db' created where res: "res = (db', created)" by (cases res)
    from create_key_result [OF Inr [unfolded res]] obtain r where
      r: "db' = db @ [r]" "key_prefix r \<notin> set (map key_prefix db)" by blast
    with assms have "key_prefix r \<noteq> p" by (auto simp: prefix_inactive_def)
    with r assms have "prefix_inactive p db'"
      by (simp add: prefix_inactive_def select_active_by_prefix_append)
         (simp add: select_active_by_prefix_def)
    with Create Inr res show ?thesis by simp
  qed
next
  case (Validate key locked t1 t2)
  show ?thesis
  proof (cases "validate_key checkpw db locked key t1 t2")
    case (Inl e)
    with Validate assms show ?thesis by simp
  next
    case (Inr res)
    obtain db' found where res: "res = (db', found)" by (cases res)
    from validate_key_db [OF Inr [unfolded res]] assms have "prefix_inactive p db'"
      by (elim disjE exE) (simp_all add: prefix_inactive_def select_active_touch_last_used)
    with Validate Inr res show ?thesis by simp
  qed
next
  case (Revoke kid now)
  with assms show ?thesis
    by (simp add: prefix_inactive_def select_active_revoke_key)
qed

lemma prefix_inactive_run:
  "prefix_inactive p db \<Longrightarrow> prefix_inactive p (run hashpw checkpw db ops)"
  unfolding run_def
  by (induction ops arbitrary: db) (simp_all add: prefix_inactive_exec)

lemma prefix_inactive_after_revoke:
  assumes "distinct (map key_prefix db)" and "r \<in> set db"
  shows "prefix_inactive (key_prefix r) (fst (revoke_key db (key_id r) now))"
  using assms
proof (induction db)
  case Nil
  then show ?case by simp
next
  case (Cons x db)
  show ?case
  proof (cases "x = r")
    case True
    with Cons.prems have "key_prefix r \<notin> set (map key_prefix db)" by simp
    then have "key_prefix r \<notin> set (map key_prefix (fst (revoke_key db (key_id r) now)))"
      by simp
    then have "select_active_by_prefix (fst (revoke_key db (key_id r) now)) [] (key_prefix r) = []"
      by (rule select_active_by_prefix_absent)
    with True show ?thesis
      by (simp add: prefix_inactive_def revoke_key_def Let_def select_active_by_prefix_def)
  next
    case False
    with Cons.prems have r: "r \<in> set db" by simp
    with Cons.prems have ne: "key_prefix x \<noteq> key_prefix r" by force
    from Cons r have "prefix_inactive (key_prefix r) (fst (revoke_key db (key_id r) now))" by simp
    with ne show ?thesis
      by (simp add: prefix_inactive_def revoke_key_def Let_def select_active_by_prefix_def)
  qed
qed

text \<open>
  C2: let \<open>r\<close> be a record of a table with unique prefixes and \<open>key\<close> a plaintext with
  the record's prefix (its correct plaintext in particular). \<^verbatim>\<open>revoke_key\<close> on the id
  of \<open>r\<close> succeeds, and after it, and after any further sequence \<open>ops\<close> of core
  operations, \<^verbatim>\<open>validate_key\<close> on \<open>key\<close> returns \<^verbatim>\<open>None\<close> and leaves the table as it
  is, whichever rows other sessions hold locked.
\<close>

theorem revoked_key_stays_rejected:
  assumes "distinct (map key_prefix db)" and "r \<in> set db"
    and "key_prefix r = get_key_prefix key"
    and "revoke_key db (key_id r) now = (db', ok)"
    and "db'' = run hashpw checkpw db' ops"
  shows "ok \<and> validate_key checkpw db'' locked key t t' = Inr (db'', None)"
proof -
  from assms(2,4) revoke_key_found [of db "key_id r" now] have ok by simp
  from prefix_inactive_after_revoke [OF assms(1,2), of now] assms(4)
  have "prefix_inactive (key_prefix r) db'" by simp
  then have "prefix_inactive (key_prefix r) db''"
    unfolding assms(5) by (rule prefix_inactive_run)
  with assms(3) have "select_active_by_prefix db'' [] (get_key_prefix key) = []"
    by (simp add: prefix_inactive_def)
  then have "select_active_by_prefix db'' locked (get_key_prefix key) = []"
    by (rule select_active_by_prefix_locked)
  then have "validate_key checkpw db'' locked key t t' = Inr (db'', None)"
    by (simp add: validate_key_def)
  with \<open>ok\<close> show ?thesis by simp
qed

theorem revoked_key_stays_rejected_witness:
  "snd (revoke_key [key_a, key_b] ''id-a'' 5)
   \<and> validate_key toy_checkpw
        (run toy_hashpw toy_checkpw (fst (revoke_key [key_a, key_b] ''id-a'' 5))
           [Validate secret_b [] 6 7, Create request_c random_c ''s3'' ''id-c'' 8])
        [] secret_a 9 10
      = Inr (run toy_hashpw toy_checkpw (fst (revoke_key [key_a, key_b] ''id-a'' 5))
               [Validate secret_b [] 6 7, Create request_c random_c ''s3'' ''id-c'' 8], None)"
proof -
  have h: "distinct (map key_prefix [key_a, key_b])" "key_a \<in> set [key_a, key_b]"
    "key_prefix key_a = get_key_prefix secret_a"
    by (simp_all add: example_defs get_key_prefix_def)
  have i: "key_id key_a = ''id-a''" by (simp add: key_a_def)
  have r: "revoke_key [key_a, key_b] (key_id key_a) 5
    = (fst (revoke_key [key_a, key_b] ''id-a'' 5), snd (revoke_key [key_a, key_b] ''id-a'' 5))"
    by (simp add: i)
  from revoked_key_stays_rejected [OF h r refl, where checkpw = toy_checkpw
      and hashpw = toy_hashpw and locked = "[]" and t = 9 and t' = 10]
  show ?thesis by simp
qed

subsection \<open>What each operation does to \<open>revoked_at\<close>\<close>

text \<open>
  C7 as stated fails: revoking the same key at time 5 and again at time 9 leaves
  \<open>revoked_at\<close> at 9, not at the time of the first revocation.
\<close>

theorem revoked_at_overwritten_counterexample:
  "map revoked_at (run toy_hashpw toy_checkpw [key_a] [Revoke ''id-a'' 5]) = [Some 5]
   \<and> map revoked_at (run toy_hashpw toy_checkpw [key_a] [Revoke ''id-a'' 5, Revoke ''id-a'' 9])
       = [Some 9]"
  by (simp add: run_def revoke_key_def key_a_def)

lemma exec_shape:
  "case op of
     Create data random_part salt uuid now \<Rightarrow>
       exec hashpw checkpw db op = db
       \<or> (\<exists>r. exec hashpw checkpw db op = db @ [r] \<and> is_active r \<and> revoked_at r = None)
   | Validate key locked t1 t2 \<Rightarrow>
       exec hashpw checkpw db op = db
       \<or> (\<exists>kid. exec hashpw checkpw db op = touch_last_used db kid t2)
   | Revoke kid now \<Rightarrow> exec hashpw checkpw db op = fst (revoke_key db kid now)"
proof (cases op)
  case (Create data random_part salt uuid now)
  show ?thesis
  proof (cases "create_key hashpw db data random_part salt uuid now")
    case (Inl e)
    with Create show ?thesis by simp
  next
    case (Inr res)
    obtain db' created where res: "res = (db', created)" by (cases res)
    from create_key_result [OF Inr [unfolded res]] Create Inr res show ?thesis by auto
  qed
next
  case (Validate key locked t1 t2)
  show ?thesis
  proof (cases "validate_key checkpw db locked key t1 t2")
    case (Inl e)
    with Validate show ?thesis by simp
  next
    case (Inr res)
    obtain db' found where res: "res = (db', found)" by (cases res)
    from validate_key_db [OF Inr [unfolded res]] Validate Inr res show ?thesis by auto
  qed
next
  case (Revoke kid now)
  then show ?thesis by simp
qed

lemma nth_touch_last_used:
  "i < length db \<Longrightarrow> touch_last_used db kid t ! i =
     (if key_id (db ! i) = kid then (db ! i)\<lparr>last_used_at := Some t\<rparr> else db ! i)"
  by (simp add: touch_last_used_def)

lemma nth_revoke_key:
  "i < length db \<Longrightarrow> fst (revoke_key db kid now) ! i =
     (if key_id (db ! i) = kid then (db ! i)\<lparr>is_active := False, revoked_at := Some now\<rparr>
      else db ! i)"
  by (simp add: revoke_key_def Let_def)

lemma length_touch_last_used [simp]: "length (touch_last_used db kid t) = length db"
  by (simp add: touch_last_used_def)

lemma length_revoke_key [simp]: "length (fst (revoke_key db kid now)) = length db"
  by (simp add: revoke_key_def Let_def)

lemma exec_step_revoked_at:
  assumes "i < length db"
  shows "i < length (exec hashpw checkpw db op)
    \<and> key_id (exec hashpw checkpw db op ! i) = key_id (db ! i)
    \<and> revoked_at (exec hashpw checkpw db op ! i) =
        (case op of
           Revoke kid now \<Rightarrow> if key_id (db ! i) = kid then Some now else revoked_at (db ! i)
         | _ \<Rightarrow> revoked_at (db ! i))"
  using exec_shape [where op = op and db = db and hashpw = hashpw and checkpw = checkpw] assms
  by (cases op) (auto simp: nth_append nth_touch_last_used nth_revoke_key)

lemma run_keeps_revoked:
  "i < length db \<Longrightarrow> revoked_at (db ! i) \<noteq> None
     \<Longrightarrow> i < length (run hashpw checkpw db ops) \<and> revoked_at (run hashpw checkpw db ops ! i) \<noteq> None"
proof (induction ops arbitrary: db)
  case Nil
  then show ?case by (simp add: run_def)
next
  case (Cons op ops)
  from exec_step_revoked_at [OF Cons.prems(1), of hashpw checkpw op] Cons.prems(2)
  have "i < length (exec hashpw checkpw db op)"
    "revoked_at (exec hashpw checkpw db op ! i) \<noteq> None"
    by (auto split: op.splits if_splits)
  from Cons.IH [OF this] show ?case by (simp add: run_def)
qed

text \<open>
  C7, amended: a core operation keeps every existing row in its place with its id.
  \<^verbatim>\<open>create_key\<close> and \<^verbatim>\<open>validate_key\<close> leave its \<open>revoked_at\<close> as it is;
  \<^verbatim>\<open>revoke_key\<close> on the row's id sets \<open>revoked_at\<close> to the time of that call, also
  when it was set before, and leaves the rows of other ids alone. Hence \<open>revoked_at\<close>,
  once non-null, is non-null after every sequence of operations.
\<close>

theorem revoked_at_changed_only_by_revoke:
  assumes "i < length db"
  shows "i < length (exec hashpw checkpw db op)
    \<and> key_id (exec hashpw checkpw db op ! i) = key_id (db ! i)
    \<and> revoked_at (exec hashpw checkpw db op ! i) =
        (case op of
           Revoke kid now \<Rightarrow> if key_id (db ! i) = kid then Some now else revoked_at (db ! i)
         | _ \<Rightarrow> revoked_at (db ! i))
    \<and> (revoked_at (db ! i) \<noteq> None \<longrightarrow> revoked_at (run hashpw checkpw db ops ! i) \<noteq> None)"
  using exec_step_revoked_at [OF assms, of hashpw checkpw op]
    run_keeps_revoked [OF assms, of hashpw checkpw ops]
  by simp

theorem revoked_at_changed_only_by_revoke_witness:
  "revoked_at (exec toy_hashpw toy_checkpw [key_a, key_b] (Revoke ''id-b'' 5) ! 1) = Some 5
   \<and> revoked_at (exec toy_hashpw toy_checkpw [key_a, key_b] (Revoke ''id-b'' 5) ! 0) = None
   \<and> revoked_at (run toy_hashpw toy_checkpw [key_a, key_b\<lparr>revoked_at := Some 3\<rparr>]
                   [Validate secret_b [] 6 7] ! 1) \<noteq> None"
proof -
  have l: "0 < length [key_a, key_b]" "1 < length [key_a, key_b]"
    "1 < length [key_a, key_b\<lparr>revoked_at := Some 3\<rparr>]" by simp_all
  from revoked_at_changed_only_by_revoke [OF l(1), of toy_hashpw toy_checkpw "Revoke ''id-b'' 5"]
    revoked_at_changed_only_by_revoke [OF l(2), of toy_hashpw toy_checkpw "Revoke ''id-b'' 5"]
    revoked_at_changed_only_by_revoke [OF l(3), of toy_hashpw toy_checkpw "Revoke ''id-b'' 5"
      "[Validate secret_b [] 6 7]"]
  show ?thesis by (simp add: key_a_def key_b_def)
qed

subsection \<open>The unique constraints in reachable tables\<close>

text \<open>
  The theorems about \<^verbatim>\<open>validate_key\<close> assume a table with unique prefixes. Every
  table that the core operations produce from the empty one is such a table.
\<close>

lemma key_id_touch_last_used [simp]:
  "map key_id (touch_last_used db kid t) = map key_id db"
  by (induction db) (auto simp: touch_last_used_def)

lemma unique_keys_exec:
  assumes "unique_keys db"
  shows "unique_keys (exec hashpw checkpw db op)"
proof (cases op)
  case (Create data random_part salt uuid now)
  show ?thesis
  proof (cases "create_key hashpw db data random_part salt uuid now")
    case (Inl e)
    with Create assms show ?thesis by simp
  next
    case (Inr res)
    obtain db' created where res: "res = (db', created)" by (cases res)
    from create_key_result [OF Inr [unfolded res]] obtain r where
      "db' = db @ [r]" "key_prefix r \<notin> set (map key_prefix db)"
      "key_id r \<notin> set (map key_id db)" by blast
    with assms have "unique_keys db'" by (simp add: unique_keys_def)
    with Create Inr res show ?thesis by simp
  qed
next
  case (Validate key locked t1 t2)
  with exec_shape [where op = op and db = db and hashpw = hashpw and checkpw = checkpw]
  consider "exec hashpw checkpw db op = db"
    | kid where "exec hashpw checkpw db op = touch_last_used db kid t2"
    by auto
  then show ?thesis using assms by cases (simp_all add: unique_keys_def)
next
  case (Revoke kid now)
  with assms show ?thesis by (simp add: unique_keys_def key_id_revoke_key)
qed

lemma unique_keys_run:
  "unique_keys db \<Longrightarrow> unique_keys (run hashpw checkpw db ops)"
  unfolding run_def
  by (induction ops arbitrary: db) (simp_all add: unique_keys_exec)

lemma unique_keys_reachable: "unique_keys (run hashpw checkpw [] ops)"
  by (rule unique_keys_run) (simp add: unique_keys_def)

subsection \<open>Revoked exactly when inactive\<close>

lemma touch_last_used_invariant:
  "\<forall>r \<in> set db. revoked_iff_inactive r
     \<Longrightarrow> \<forall>r \<in> set (touch_last_used db kid t). revoked_iff_inactive r"
  by (induction db) (simp_all add: touch_last_used_def revoked_iff_inactive_def)

lemma revoke_key_invariant:
  "\<forall>r \<in> set db. revoked_iff_inactive r
     \<Longrightarrow> \<forall>r \<in> set (fst (revoke_key db kid now)). revoked_iff_inactive r"
  by (induction db) (simp_all add: revoke_key_def Let_def revoked_iff_inactive_def)

lemma exec_preserves_invariant:
  assumes "\<forall>r \<in> set db. revoked_iff_inactive r"
  shows "\<forall>r \<in> set (exec hashpw checkpw db op). revoked_iff_inactive r"
proof (cases op)
  case (Create data random_part salt uuid now)
  with exec_shape [where op = op and db = db and hashpw = hashpw and checkpw = checkpw]
  consider "exec hashpw checkpw db op = db"
    | r where "exec hashpw checkpw db op = db @ [r]" "is_active r" "revoked_at r = None"
    by auto
  then show ?thesis
  proof cases
    case 1
    with assms show ?thesis by simp
  next
    case 2
    from 2(2,3) have "revoked_iff_inactive r" by (simp add: revoked_iff_inactive_def)
    with assms 2(1) show ?thesis by simp
  qed
next
  case (Validate key locked t1 t2)
  with exec_shape [where op = op and db = db and hashpw = hashpw and checkpw = checkpw]
  consider "exec hashpw checkpw db op = db"
    | kid where "exec hashpw checkpw db op = touch_last_used db kid t2"
    by auto
  then show ?thesis
  proof cases
    case 1
    with assms show ?thesis by simp
  next
    case 2
    with touch_last_used_invariant [OF assms] show ?thesis by simp
  qed
next
  case (Revoke kid now)
  with revoke_key_invariant [OF assms] show ?thesis by simp
qed

lemma run_preserves_invariant:
  "\<forall>r \<in> set db. revoked_iff_inactive r
     \<Longrightarrow> \<forall>r \<in> set (run hashpw checkpw db ops). revoked_iff_inactive r"
proof (induction ops arbitrary: db)
  case Nil
  then show ?case by (simp add: run_def)
next
  case (Cons op ops)
  from Cons.prems have "\<forall>r \<in> set (exec hashpw checkpw db op). revoked_iff_inactive r"
    by (rule exec_preserves_invariant)
  from Cons.IH [OF this] show ?case by (simp add: run_def)
qed

text \<open>
  C8: every core operation preserves the invariant that each row has \<open>revoked_at\<close>
  non-null exactly when \<open>is_active\<close> is false, and every table reached from the empty
  one by a sequence of core operations satisfies it.
\<close>

theorem revoked_iff_inactive_invariant:
  "((\<forall>r \<in> set db. revoked_iff_inactive r)
      \<longrightarrow> (\<forall>r \<in> set (exec hashpw checkpw db op). revoked_iff_inactive r))
   \<and> (\<forall>r \<in> set (run hashpw checkpw [] ops). revoked_iff_inactive r)"
  using exec_preserves_invariant [of db hashpw checkpw op]
    run_preserves_invariant [of "[]" hashpw checkpw ops]
  by simp

theorem revoked_iff_inactive_invariant_witness:
  "run toy_hashpw toy_checkpw [] [Create request_c random_c ''s3'' ''id-c'' 20, Revoke ''id-c'' 30]
     = [key_c\<lparr>is_active := False, revoked_at := Some 30\<rparr>]
   \<and> revoked_iff_inactive (key_c\<lparr>is_active := False, revoked_at := Some 30\<rparr>)
   \<and> revoked_iff_inactive key_c"
proof -
  have c: "create_key toy_hashpw [] request_c random_c ''s3'' ''id-c'' 20 = Inr ([key_c], issued_c)"
    by (simp add: create_key_def Let_def insert_api_key_def generate_key_def KEY_PREFIX_def
      hash_key_def get_key_prefix_def request_c_def random_c_def key_c_def issued_c_def
      example_defs)
  have r: "run toy_hashpw toy_checkpw [] [Create request_c random_c ''s3'' ''id-c'' 20, Revoke ''id-c'' 30]
     = [key_c\<lparr>is_active := False, revoked_at := Some 30\<rparr>]"
    by (simp add: run_def c revoke_key_def) (simp add: key_c_def)
  have k: "\<forall>r \<in> set [key_c]. revoked_iff_inactive r"
    by (simp add: revoked_iff_inactive_def key_c_def)
  from revoked_iff_inactive_invariant [of "[key_c]" toy_hashpw toy_checkpw "Revoke ''id-c'' 30"
      "[Create request_c random_c ''s3'' ''id-c'' 20, Revoke ''id-c'' 30]"] r k
  show ?thesis by simp
qed

subsection \<open>The frame of \<^verbatim>\<open>ItemService.update\<close>\<close>

lemma scalar_one_or_none_Some:
  "scalar_one_or_none xs = Inr (Some x) \<Longrightarrow> xs = [x]"
  by (cases xs rule: scalar_one_or_none.cases) auto

lemma get_by_id_Some:
  assumes "get_by_id db iid = Inr (Some item)"
  shows "item \<in> set db \<and> item_id item = iid"
proof -
  from assms have "filter (\<lambda>r. item_id r = iid) db = [item]"
    unfolding get_by_id_def by (rule scalar_one_or_none_Some)
  then have "item \<in> set (filter (\<lambda>r. item_id r = iid) db)" by simp
  then show ?thesis by simp
qed

lemma get_by_id_only:
  assumes "get_by_id db iid = Inr (Some item)" and "r \<in> set db" and "item_id r = iid"
  shows "r = item"
proof -
  from assms(1) have "filter (\<lambda>r. item_id r = iid) db = [item]"
    unfolding get_by_id_def by (rule scalar_one_or_none_Some)
  moreover from assms(2,3) have "r \<in> set (filter (\<lambda>r. item_id r = iid) db)" by simp
  ultimately show ?thesis by simp
qed

lemma filter_others_replace:
  "item_id item' = iid \<Longrightarrow>
     filter (\<lambda>r. item_id r \<noteq> iid) (map (\<lambda>r. if item_id r = iid then item' else r) db)
       = filter (\<lambda>r. item_id r \<noteq> iid) db"
  by (induction db) simp_all

lemma flush_item_frame:
  assumes "flush_item db item new_name new_description now = Inr (db', Some item')"
  shows "item_id item' = item_id item \<and> item_created_at item' = item_created_at item
    \<and> new_name = Some (item_name item') \<and> description item' = new_description
    \<and> (db' = db \<and> item' = item
        \<or> db' = map (\<lambda>r. if item_id r = item_id item then item' else r) db)"
  using assms
  by (auto simp: flush_item_def Let_def split: option.splits if_splits)

text \<open>
  For an existing item \<^verbatim>\<open>update\<close> returns the item, unless the request sets
  \<^verbatim>\<open>name\<close> to an explicit \<^verbatim>\<open>null\<close>: the NOT NULL column refuses it at the flush.
\<close>

lemma update_existing_returns:
  assumes "get_by_id db iid = Inr (Some item)" and "set_name data \<noteq> Some None"
  shows "\<exists>db' item'. update db iid data now = Inr (db', Some item')"
proof (cases "set_name data")
  case None
  with assms(1) show ?thesis
    by (simp add: update_def flush_item_def model_dump_exclude_unset_def dom_def Let_def)
next
  case (Some v)
  with assms(2) obtain n where "v = Some n" by (cases v) auto
  with Some assms(1) show ?thesis
    by (simp add: update_def flush_item_def model_dump_exclude_unset_def dom_def Let_def
        UPDATABLE_FIELDS_def)
qed

lemma update_null_name_raises:
  assumes "get_by_id db iid = Inr (Some item)" and "set_name data = Some None"
  shows "update db iid data now = Inl IntegrityError"
  using assms
  by (simp add: update_def flush_item_def model_dump_exclude_unset_def dom_def Let_def
      UPDATABLE_FIELDS_def)

text \<open>
  C9: when \<^verbatim>\<open>update\<close> returns an item, it is the stored item of that id with the same
  \<open>id\<close> and \<open>created_at\<close>; a field the request did not set (\<open>name\<close>,
  \<open>description\<close>) keeps its value; and in the table every row keeps its \<open>id\<close> and
  \<open>created_at\<close>, and the rows of other ids are untouched.
\<close>

theorem update_changes_only_allowed_fields:
  assumes "update db iid data now = Inr (db', Some item')"
  shows "\<exists>item. get_by_id db iid = Inr (Some item)
    \<and> item_id item' = item_id item
    \<and> item_created_at item' = item_created_at item
    \<and> (set_name data = None \<longrightarrow> item_name item' = item_name item)
    \<and> (set_description data = None \<longrightarrow> description item' = description item)
    \<and> map item_id db' = map item_id db
    \<and> map item_created_at db' = map item_created_at db
    \<and> filter (\<lambda>r. item_id r \<noteq> iid) db' = filter (\<lambda>r. item_id r \<noteq> iid) db"
proof -
  from assms obtain item where g: "get_by_id db iid = Inr (Some item)"
    by (auto simp: update_def split: sum.splits option.splits)
  from get_by_id_Some [OF g] have i: "item_id item = iid" by simp
  define new_name where "new_name =
    (if ''name'' \<in> dom (model_dump_exclude_unset data) \<and> ''name'' \<in> UPDATABLE_FIELDS
     then the (model_dump_exclude_unset data ''name'') else Some (item_name item))"
  define new_description where "new_description =
    (if ''description'' \<in> dom (model_dump_exclude_unset data) \<and> ''description'' \<in> UPDATABLE_FIELDS
     then the (model_dump_exclude_unset data ''description'') else description item)"
  from assms g have f: "flush_item db item new_name new_description now = Inr (db', Some item')"
    by (simp add: update_def Let_def new_name_def new_description_def)
  note fr = flush_item_frame [OF f]
  have n: "set_name data = None \<Longrightarrow> new_name = Some (item_name item)"
    by (simp add: new_name_def model_dump_exclude_unset_def dom_def)
  have d: "set_description data = None \<Longrightarrow> new_description = description item"
    by (simp add: new_description_def model_dump_exclude_unset_def dom_def)
  from fr have ids: "map item_id db' = map item_id db"
    by (auto simp: i)
  have "map item_created_at (map (\<lambda>r. if item_id r = iid then item' else r) db)
          = map item_created_at db"
    using get_by_id_only [OF g] fr by (simp add: map_eq_conv)
  with fr have cs: "map item_created_at db' = map item_created_at db"
    by (auto simp: i)
  from fr i have "item_id item' = iid" by simp
  from filter_others_replace [OF this, of db] fr
  have rest: "filter (\<lambda>r. item_id r \<noteq> iid) db' = filter (\<lambda>r. item_id r \<noteq> iid) db"
    by (auto simp: i)
  from g fr n d ids cs rest show ?thesis by auto
qed

theorem update_changes_only_allowed_fields_witness:
  "update [widget] ''item-1'' rename_widget 5
     = Inr ([widget\<lparr>item_name := ''Widget2'', updated_at := 5\<rparr>],
            Some (widget\<lparr>item_name := ''Widget2'', updated_at := 5\<rparr>))
   \<and> description (widget\<lparr>item_name := ''Widget2'', updated_at := 5\<rparr>) = description widget
   \<and> item_created_at (widget\<lparr>item_name := ''Widget2'', updated_at := 5\<rparr>)
       = item_created_at widget"
proof -
  have u: "update [widget] ''item-1'' rename_widget 5
     = Inr ([widget\<lparr>item_name := ''Widget2'', updated_at := 5\<rparr>],
            Some (widget\<lparr>item_name := ''Widget2'', updated_at := 5\<rparr>))"
    by (simp add: update_def get_by_id_def flush_item_def model_dump_exclude_unset_def
        UPDATABLE_FIELDS_def dom_def Let_def widget_def rename_widget_def)
  have g: "get_by_id [widget] ''item-1'' = Inr (Some widget)"
    by (simp add: get_by_id_def widget_def)
  have n: "set_description rename_widget = None" by (simp add: rename_widget_def)
  from update_changes_only_allowed_fields [OF u] g n u show ?thesis by simp
qed

end
